theory Spec2Isabelle
  imports Main "HOL-Library.AList"
begin

section \<open>Python errors\<close>

text \<open>
  The exceptions that the modelled code can raise.  A function that may raise returns
  a value of \<open>py_error + 'a\<close>, with \<open>Inl\<close> for the exception.
\<close>

datatype py_error =
    IndexError | KeyError | NameError | ValueError | AttributeError
  | IOError | NotImplementedError

section \<open>The built-in list\<close>

text \<open>
  \<open>list.__getitem__\<close> and \<open>list.__setitem__\<close> at an integer index: a negative
  index counts from the end, and an index outside \<open>[-len, len)\<close> raises IndexError.
\<close>

definition py_index :: "'a list \<Rightarrow> int \<Rightarrow> int" where
  "py_index xs index = (if index < 0 then index + int (length xs) else index)"

definition list_getitem :: "'a list \<Rightarrow> int \<Rightarrow> py_error + 'a" where
  "list_getitem xs index =
     (let k = py_index xs index
      in if 0 \<le> k \<and> k < int (length xs) then Inr (xs ! nat k) else Inl IndexError)"

definition list_setitem :: "'a list \<Rightarrow> int \<Rightarrow> 'a \<Rightarrow> py_error + 'a list" where
  "list_setitem xs index v =
     (let k = py_index xs index
      in if 0 \<le> k \<and> k < int (length xs) then Inr (xs[nat k := v]) else Inl IndexError)"

section \<open>GrowingList\<close>

text \<open>
  \<open>class GrowingList(list)\<close> of boltdepot.py.  The object is its list of items; the
  factory \<open>_default_type\<close> is passed as the value \<open>d\<close> that every call of it returns
  (\<open>None\<close> for \<open>lambda: None\<close>, the empty sequence for \<open>GrowingList\<close>; each call
  makes a fresh object, so the new slots alias nothing).

  \<open>extend_to\<close> is the guarded statement both methods start with:
  \<^verbatim>\<open>
    if index >= len(self):
        self.extend([self._default_type() for i in range(index + 1 - len(self))])
  \<close>
  \<open>GrowingList_getitem\<close> returns the item together with the sequence as the call
  leaves it, \<open>GrowingList_setitem\<close> the sequence as the call leaves it.
\<close>

definition extend_to :: "'a \<Rightarrow> 'a list \<Rightarrow> int \<Rightarrow> 'a list" where
  "extend_to d xs index =
     (if index \<ge> int (length xs)
      then xs @ replicate (nat (index + 1 - int (length xs))) d
      else xs)"

definition GrowingList_getitem :: "'a \<Rightarrow> 'a list \<Rightarrow> int \<Rightarrow> py_error + ('a \<times> 'a list)" where
  "GrowingList_getitem d xs index =
     (let xs' = extend_to d xs index
      in case list_getitem xs' index of
           Inl e \<Rightarrow> Inl e
         | Inr v \<Rightarrow> Inr (v, xs'))"

definition GrowingList_setitem :: "'a \<Rightarrow> 'a list \<Rightarrow> int \<Rightarrow> 'a \<Rightarrow> py_error + 'a list" where
  "GrowingList_setitem d xs index v = list_setitem (extend_to d xs index) index v"

section \<open>URL query codec\<close>

text \<open>
  \<open>str.split(sep)\<close> for a one-character separator (every occurrence splits, so the
  result has one piece more than there are separators) and \<open>sep.join(pieces)\<close>.
\<close>

fun str_split :: "char \<Rightarrow> string \<Rightarrow> string list" where
  "str_split c [] = [[]]"
| "str_split c (x # xs) =
     (if x = c then [] # str_split c xs
      else (case str_split c xs of [] \<Rightarrow> [[x]] | w # ws \<Rightarrow> (x # w) # ws))"

fun str_join :: "string \<Rightarrow> string list \<Rightarrow> string" where
  "str_join sep [] = []"
| "str_join sep [x] = x"
| "str_join sep (x # y # ys) = x @ sep @ str_join sep (y # ys)"

text \<open>
  A dict is the list of its items in insertion order, with distinct keys.  Building one
  from pairs (a dict comprehension, \<open>dict(pairs)\<close>) stores the pairs one after the
  other: a key seen again keeps its place and takes the new value.
\<close>

definition dict_of_pairs :: "('k \<times> 'v) list \<Rightarrow> ('k \<times> 'v) list" where
  "dict_of_pairs ps = fold (\<lambda>(k, v). AList.update k v) ps []"

definition newline :: char where
  "newline = CHR 0x0A"

text \<open>
  \<open>url_match\<close> is \<open>re.search(r'^(?P<base>.*)\?(?P<params>.*)$', url, flags=re.I)\<close>,
  returning the two groups.  Without DOTALL the dot matches every character but the
  newline, and without MULTILINE \<open>^\<close> matches at the start only and \<open>$\<close> at the end
  or just before a newline that ends the string.  So there is a match exactly when the
  first line holds a question mark and nothing but at most one newline follows that
  line; both groups being greedy, \<open>base\<close> runs to the last question mark of the line
  and \<open>params\<close> from there to the end of the line.
\<close>

definition url_match :: "string \<Rightarrow> (string \<times> string) option" where
  "url_match url =
     (let line = takeWhile (\<lambda>c. c \<noteq> newline) url;
          rest = dropWhile (\<lambda>c. c \<noteq> newline) url
      in if CHR ''?'' \<in> set line \<and> (rest = [] \<or> rest = [newline])
         then Some (rev (tl (dropWhile (\<lambda>c. c \<noteq> CHR ''?'') (rev line))),
                    rev (takeWhile (\<lambda>c. c \<noteq> CHR ''?'') (rev line)))
         else None)"

text \<open>
  The generator \<open>(p.split('=') for p in ...)\<close> unpacked into \<open>(k, v)\<close>: a parameter
  that does not split into exactly two pieces raises ValueError.
\<close>

fun param_pairs :: "string list \<Rightarrow> py_error + (string \<times> string) list" where
  "param_pairs [] = Inr []"
| "param_pairs (p # ps) =
     (case str_split (CHR ''='') p of
        [k, v] \<Rightarrow> (case param_pairs ps of Inl e \<Rightarrow> Inl e | Inr r \<Rightarrow> Inr ((k, v) # r))
      | _ \<Rightarrow> Inl ValueError)"

text \<open>
  \<open>split_url\<close>: when the pattern does not match, \<open>match\<close> is \<open>None\<close> and
  \<open>match.group\<close> raises AttributeError.
\<close>

definition split_url :: "string \<Rightarrow> py_error + (string \<times> (string \<times> string) list)" where
  "split_url url =
     (case url_match url of
        None \<Rightarrow> Inl AttributeError
      | Some (base, params) \<Rightarrow>
          (case param_pairs (str_split (CHR ''&'') params) of
             Inl e \<Rightarrow> Inl e
           | Inr ps \<Rightarrow> Inr (base, dict_of_pairs ps)))"

definition join_url :: "string \<Rightarrow> (string \<times> string) list \<Rightarrow> string" where
  "join_url base params =
     base @ ''?'' @ str_join ''&'' (map (\<lambda>(k, v). k @ ''='' @ v) params)"

section \<open>Table extractor\<close>

text \<open>
  The input of \<open>table_data\<close> is the table as the selectors hand it over: the rows
  \<open>table.css('tr')\<close>, each with its cells \<open>row.css('th, td')\<close>.  Of a cell the code
  reads the tag (\<open>th\<close> or \<open>td\<close>, by the selector), the first text node (absent when
  the cell has none) and the two span attributes.

  \<open>int(cell.css('::attr("rowspan")').extract_first() or 1)\<close> sees one of three things:
  no attribute or an empty one (\<open>Absent\<close>: the \<open>or\<close> gives 1), a string that \<open>int\<close>
  reads as the number \<open>n\<close> (\<open>Literal n\<close>), or a string that \<open>int\<close> rejects with
  ValueError (\<open>Malformed\<close>).
\<close>

datatype cell_tag = TH | TD

datatype span_attr = Absent | Literal int | Malformed

record cell =
  tag :: cell_tag
  first_text :: "string option"
  rowspan :: span_attr
  colspan :: span_attr

type_synonym row = "string option list"

type_synonym grid = "row list"

definition span_int :: "span_attr \<Rightarrow> py_error + int" where
  "span_int a = (case a of Absent \<Rightarrow> Inr 1 | Literal n \<Rightarrow> Inr n | Malformed \<Rightarrow> Inl ValueError)"

text \<open>\<open>value.rstrip('\r\n\t ')\<close>: trailing carriage returns, newlines, tabs and blanks go.\<close>

definition rstrip :: "string \<Rightarrow> string" where
  "rstrip s = rev (dropWhile (\<lambda>c. c \<in> set [CHR 0x0D, CHR 0x0A, CHR 0x09, CHR '' '']) (rev s))"

text \<open>
  \<open>push_data\<close>.  A row buffer is an inner sequence of \<open>data\<close>, made by
  \<open>GrowingList()\<close>, so its factory is \<open>lambda: None\<close>: the default passed to the
  GrowingList methods is \<open>None\<close>.
  \<^verbatim>\<open>
    try:
        while row[i] is not None:
            i += 1
    except IndexError:
        pass
    row[i] = val
    return i
  \<close>
  \<open>push_data_scan\<close> is the \<open>try\<close> statement: it returns the index and the row as the
  statement leaves them, and whether the \<open>except\<close> branch ran.  The reads can extend
  the row, so the row is threaded through.  \<open>push_data\<close> returns the index together
  with the row after the write.
\<close>

function push_data_scan :: "row \<Rightarrow> int \<Rightarrow> py_error + (int \<times> row \<times> bool)" where
  "push_data_scan row i =
     (case GrowingList_getitem None row i of
        Inl e \<Rightarrow> (if e = IndexError then Inr (i, row, True) else Inl e)
      | Inr (v, row') \<Rightarrow>
          (if v \<noteq> None then push_data_scan row' (i + 1) else Inr (i, row', False)))"
  by pat_completeness auto
termination
proof (relation "measure (\<lambda>(row, i). nat (int (length row) - i))")
  show "wf (measure (\<lambda>(row, i). nat (int (length row) - i)))"
    by simp
next
  fix row :: row and i :: int and x2 v row'
  assume get: "GrowingList_getitem None row i = Inr x2"
    and x2: "(v, row') = x2" and v: "v \<noteq> None"
  have "i < int (length row) \<and> row' = row"
    using get x2 v
    by (auto simp: GrowingList_getitem_def list_getitem_def py_index_def extend_to_def
        Let_def nth_append split: if_splits)
  then show "((row', i + 1), (row, i)) \<in> measure (\<lambda>(row, i). nat (int (length row) - i))"
    by simp
qed

declare push_data_scan.simps [simp del]

definition push_data :: "row \<Rightarrow> int \<Rightarrow> string \<Rightarrow> py_error + (int \<times> row)" where
  "push_data row i val =
     (case push_data_scan row i of
        Inl e \<Rightarrow> Inl e
      | Inr (k, row', caught) \<Rightarrow>
          (case GrowingList_setitem None row' k (Some val) of
             Inl e \<Rightarrow> Inl e
           | Inr row'' \<Rightarrow> Inr (k, row'')))"

text \<open>A \<open>for\<close> loop whose body may raise: the first exception ends the loop.\<close>

fun foldE :: "('a \<Rightarrow> 's \<Rightarrow> py_error + 's) \<Rightarrow> 'a list \<Rightarrow> 's \<Rightarrow> py_error + 's" where
  "foldE f [] s = Inr s"
| "foldE f (x # xs) s = (case f x s of Inl e \<Rightarrow> Inl e | Inr s' \<Rightarrow> foldE f xs s')"

text \<open>
  \<open>grid_assign\<close> is the statement \<open>data[a][b] = value\<close>: \<open>data[a]\<close> reads the outer
  sequence (factory \<open>GrowingList\<close>, so new rows are empty), the row it returns is
  written at \<open>b\<close>, and as the row is an object of \<open>data\<close> the write shows there.
\<close>

definition grid_assign :: "grid \<Rightarrow> int \<Rightarrow> int \<Rightarrow> string \<Rightarrow> py_error + grid" where
  "grid_assign data a b v =
     (case GrowingList_getitem [] data a of
        Inl e \<Rightarrow> Inl e
      | Inr (row, data') \<Rightarrow>
          (case GrowingList_setitem None row b (Some v) of
             Inl e \<Rightarrow> Inl e
           | Inr row' \<Rightarrow> Inr (data'[nat (py_index data' a) := row'])))"

text \<open>
  \<open>populate\<close> is the pair of loops
  \<^verbatim>\<open>
    for di in range(rowspan):
        for dj in range(colspan):
            data[i + di][j + dj] = value
  \<close>
  and \<open>place_cell\<close> the statement \<open>j = push_data(data[i], j, value)\<close> followed by
  them; it returns the grid and the column found.
\<close>

definition populate :: "grid \<Rightarrow> int \<Rightarrow> int \<Rightarrow> int \<Rightarrow> int \<Rightarrow> string \<Rightarrow> py_error + grid" where
  "populate data i j rs cs v =
     foldE (\<lambda>di. foldE (\<lambda>dj d. grid_assign d (i + int di) (j + int dj) v) [0..<nat cs])
       [0..<nat rs] data"

definition place_cell ::
  "grid \<Rightarrow> int \<Rightarrow> int \<Rightarrow> string \<Rightarrow> int \<Rightarrow> int \<Rightarrow> py_error + (grid \<times> int)" where
  "place_cell data i j v rs cs =
     (case GrowingList_getitem [] data i of
        Inl e \<Rightarrow> Inl e
      | Inr (row, data1) \<Rightarrow>
          (case push_data row j v of
             Inl e \<Rightarrow> Inl e
           | Inr (j', row') \<Rightarrow>
               (case populate (data1[nat (py_index data1 i) := row']) i j' rs cs v of
                  Inl e \<Rightarrow> Inl e
                | Inr data2 \<Rightarrow> Inr (data2, j'))))"

text \<open>
  \<open>cell_step\<close> is the body of the loop over the cells of row \<open>i\<close>, on the state
  \<open>(data, j, is_header_row)\<close>; \<open>row_step\<close> is the body of the loop over the rows, on
  the state \<open>(data, header_count)\<close>; \<open>table_data\<close> runs it over the enumerated rows.
\<close>

definition cell_step ::
  "int \<Rightarrow> cell \<Rightarrow> grid \<times> int \<times> bool \<Rightarrow> py_error + (grid \<times> int \<times> bool)" where
  "cell_step i c st =
     (case st of (data, j, is_header_row) \<Rightarrow>
        (let v = rstrip (case first_text c of None \<Rightarrow> [] | Some t \<Rightarrow> t) in
         case span_int (rowspan c) of
           Inl e \<Rightarrow> Inl e
         | Inr rs \<Rightarrow>
             (case span_int (colspan c) of
                Inl e \<Rightarrow> Inl e
              | Inr cs \<Rightarrow>
                  (let is_header_row' = (if tag c \<noteq> TH then False else is_header_row) in
                   case place_cell data i j v rs cs of
                     Inl e \<Rightarrow> Inl e
                   | Inr (data', j') \<Rightarrow> Inr (data', j' + 1, is_header_row')))))"

definition row_step :: "nat \<times> cell list \<Rightarrow> grid \<times> nat \<Rightarrow> py_error + (grid \<times> nat)" where
  "row_step ir st =
     (case ir of (i, cells) \<Rightarrow>
      case st of (data, header_count) \<Rightarrow>
        (case foldE (cell_step (int i)) cells (data, 0, True) of
           Inl e \<Rightarrow> Inl e
         | Inr (data', j, is_header_row) \<Rightarrow>
             Inr (data', if is_header_row then header_count + 1 else header_count)))"

definition table_data :: "cell list list \<Rightarrow> py_error + (grid \<times> nat)" where
  "table_data table = foldE row_step (enumerate 0 table) ([], 0)"

section \<open>Metrics page walker\<close>

text \<open>
  \<open>BoltDepotDataSpider.parse\<close>.  A record is the dict \<open>dict(zip(header, row))\<close>; keys
  and values are grid slots, so either can be \<open>None\<close>.  \<open>truthy\<close> is the truth value
  of a slot (\<open>None\<close> and the empty string are false), \<open>emit_row\<close> the body of the
  loop with what it yields, and \<open>data[header_count:]\<close> is the built-in slice of the
  sequence: the script is read as Python 2 (its \<open>csv\<close> block encodes every cell to a
  byte string for the writer), where a plain slice of a list subclass is served by the
  built-in \<open>__getslice__\<close> and not by the overridden \<open>__getitem__\<close>.
\<close>

type_synonym metrics_row = "(string option \<times> string option) list"

definition truthy :: "string option \<Rightarrow> bool" where
  "truthy v = (case v of None \<Rightarrow> False | Some s \<Rightarrow> s \<noteq> [])"

definition row_record :: "row \<Rightarrow> row \<Rightarrow> metrics_row" where
  "row_record header r = dict_of_pairs (zip header r)"

definition emit_row :: "row \<Rightarrow> row \<Rightarrow> metrics_row list" where
  "emit_row header r =
     (let row_data = row_record header r
      in if list_ex truthy (map snd row_data) then [row_data] else [])"

definition parse :: "cell list list \<Rightarrow> py_error + metrics_row list" where
  "parse table =
     (case table_data table of
        Inl e \<Rightarrow> Inl e
      | Inr (data, header_count) \<Rightarrow>
          (case GrowingList_getitem [] data (int header_count - 1) of
             Inl e \<Rightarrow> Inl e
           | Inr (header, data') \<Rightarrow>
               Inr (concat (map (emit_row header) (drop header_count data')))))"

section \<open>CSV materializer\<close>

text \<open>
  A product record as \<open>parse_product_detail\<close> yields it and the feed store keeps it:
  \<open>id\<close>, \<open>name\<close>, \<open>url\<close> and \<open>details\<close> always, \<open>image_url\<close> only when the
  page has an image.  \<open>item_getitem\<close> is \<open>item[k]\<close> for a string-valued key.
\<close>

record item =
  item_id :: string
  item_name :: string
  item_url :: string
  item_details :: "(string \<times> string) list"
  item_image_url :: "string option"

definition item_getitem :: "item \<Rightarrow> string \<Rightarrow> py_error + string" where
  "item_getitem it k =
     (if k = ''id'' then Inr (item_id it)
      else if k = ''name'' then Inr (item_name it)
      else if k = ''url'' then Inr (item_url it)
      else if k = ''image_url'' then
        (case item_image_url it of None \<Rightarrow> Inl KeyError | Some u \<Rightarrow> Inr u)
      else Inl KeyError)"

definition KEYS :: "string list" where
  "KEYS = [''url'', ''image_url'', ''name'', ''id'']"

text \<open>
  The names bound at module level when the \<open>csv\<close> block runs: the imports, the
  functions and classes, the constants, and the variables the blocks before it can assign.
  \<open>FEED_URI\<close> is not among them: it is an attribute of the class \<open>BoltDepotSpider\<close>.
\<close>

definition module_globals :: "string list" where
  "module_globals =
     [''os'', ''inspect'', ''scrapy'', ''re'', ''argparse'', ''logging'', ''fnmatch'', ''json'',
      ''csv'', ''split_url'', ''join_url'', ''BoltDepotSpider'', ''BoltDepotProductSpider'',
      ''WoodScrewSpider'', ''BoltSpider'', ''NutSpider'', ''ThreadedRodSpider'', ''SPIDERS'',
      ''SPIDER_MAP'', ''GrowingList'', ''BoltDepotDataSpider'', ''DataWoodScrewDiam'',
      ''DataUSBoltThreadLen'', ''DataUSThreadPerInch'', ''DataMetricThreadPitch'',
      ''DataMetricBoltHeadSize'', ''METRICS_SPIDERS'', ''DEFAULT_PREFIX'', ''parser'',
      ''VALID_ACTIONS'', ''action_type'', ''catalogues_list_type'', ''args'',
      ''feed_names'', ''name'', ''feed_filename'', ''process'', ''metrics_spider'', ''cls'']"

text \<open>
  \<open>feed_filename\<close> is \<open>BoltDepotSpider.FEED_URI % {'prefix': prefix, 'name': name}\<close>,
  as the \<open>scrape\<close> block computes it.  The \<open>csv\<close> block writes the unqualified name,
  \<open>feed_json = FEED_URI % {...}\<close>, which is looked up among the module's globals
  (\<open>csv_feed_json\<close>) and raises NameError when it is not bound there.
\<close>

definition feed_filename :: "string \<Rightarrow> string \<Rightarrow> string" where
  "feed_filename pfx name = pfx @ ''scrape-'' @ name @ ''.json''"

definition csv_feed_json :: "string \<Rightarrow> string \<Rightarrow> py_error + string" where
  "csv_feed_json pfx name =
     (if ''FEED_URI'' \<in> set module_globals then Inr (feed_filename pfx name)
      else Inl NameError)"

definition csv_headers :: "item list \<Rightarrow> string set" where
  "csv_headers data =
     fold (\<lambda>it headers. headers \<union> set (map fst (item_details it))) data (set KEYS)"

fun mapE :: "('a \<Rightarrow> py_error + 'b) \<Rightarrow> 'a list \<Rightarrow> py_error + 'b list" where
  "mapE f [] = Inr []"
| "mapE f (x # xs) =
     (case f x of
        Inl e \<Rightarrow> Inl e
      | Inr y \<Rightarrow> (case mapE f xs of Inl e \<Rightarrow> Inl e | Inr ys \<Rightarrow> Inr (y # ys)))"

text \<open>
  \<open>csv_row\<close> is the dict handed to \<open>writer.writerow\<close>: the details, updated with
  \<open>{k: item[k] for k in KEYS}\<close>.  The written file is kept as its set of field names
  and the dict of every row; a field that a row's dict lacks is written blank by the
  writer.
\<close>

definition csv_row :: "item \<Rightarrow> py_error + (string \<times> string) list" where
  "csv_row it =
     (case mapE (item_getitem it) KEYS of
        Inl e \<Rightarrow> Inl e
      | Inr vs \<Rightarrow>
          Inr (fold (\<lambda>(k, v). AList.update k v) (zip KEYS vs) (dict_of_pairs (item_details it))))"

record csv_file =
  fieldnames :: "string set"
  rows :: "(string \<times> string) list list"

definition csv_convert :: "item list \<Rightarrow> py_error + csv_file" where
  "csv_convert data =
     (case mapE csv_row data of
        Inl e \<Rightarrow> Inl e
      | Inr rs \<Rightarrow> Inr \<lparr>fieldnames = csv_headers data, rows = rs\<rparr>)"

text \<open>
  The feed store maps a file name to the list of records the file holds; opening a
  missing file raises IOError.  \<open>csv_catalogue\<close> is the body of the loop over the
  requested catalogues, \<open>csv_action\<close> the loop.
\<close>

definition csv_catalogue ::
  "string \<Rightarrow> (string \<rightharpoonup> item list) \<Rightarrow> string \<Rightarrow> py_error + csv_file" where
  "csv_catalogue pfx feeds name =
     (case csv_feed_json pfx name of
        Inl e \<Rightarrow> Inl e
      | Inr feed_json \<Rightarrow>
          (case feeds feed_json of
             None \<Rightarrow> Inl IOError
           | Some data \<Rightarrow> csv_convert data))"

definition csv_action ::
  "string \<Rightarrow> (string \<rightharpoonup> item list) \<Rightarrow> string list \<Rightarrow> py_error + csv_file list" where
  "csv_action pfx feeds names = mapE (csv_catalogue pfx feeds) names"

section \<open>Action sequencer\<close>


definition VALID_ACTIONS :: "string list" where
  "VALID_ACTIONS = [''scrape'', ''csv'', ''build'']"






section \<open>Test labels\<close>

text \<open>
  \<open>testlabel\<close> of tests/base.py.  Classes live in a store and are named by reference.
  Of a class the decorator touches the entry \<open>_labels\<close> of its own namespace (absent or
  a set of labels) and, through \<open>getattr\<close>, the classes after it in its method
  resolution order.  \<open>getattr_labels\<close> is \<open>getattr(cls, '_labels', dflt)\<close>: the
  entry of the first class in the order that has one, else the default.  The inner
  function assigns \<open>cls._labels\<close>, which writes the class's own entry, and returns
  \<open>cls\<close>.
\<close>

record py_class =
  own_labels :: "string set option"
  mro_tail :: "nat list"

definition getattr_labels :: "(nat \<Rightarrow> py_class) \<Rightarrow> nat \<Rightarrow> string set \<Rightarrow> string set" where
  "getattr_labels store cls dflt =
     (case List.map_filter (\<lambda>c. own_labels (store c)) (cls # mro_tail (store cls)) of
        [] \<Rightarrow> dflt
      | s # _ \<Rightarrow> s)"

definition testlabel ::
  "string list \<Rightarrow> nat \<Rightarrow> (nat \<Rightarrow> py_class) \<Rightarrow> nat \<times> (nat \<Rightarrow> py_class)" where
  "testlabel labels cls store =
     (cls, store(cls := (store cls)\<lparr>own_labels := Some (set labels \<union> getattr_labels store cls {})\<rparr>))"

section \<open>Vocabulary of the statements\<close>

text \<open>
  What the theorems below say about grids and tables.  \<open>grid_at\<close> reads a position of
  a grid without changing it (a slot that does not exist reads as \<open>None\<close>, which is
  what reading it through the GrowingList would give); \<open>grid_put\<close> is the grid after
  \<open>data[a][b] = v\<close> for indices that are not negative; \<open>in_rect i j r c\<close> is the
  rectangle \<open>[i, i+r) \<times> [j, j+c)\<close>.  A header row is a row all of whose cells are
  \<open>th\<close> cells.  \<open>th\<close> and \<open>td\<close> build cells without span attributes for examples.
\<close>

definition grid_at :: "grid \<Rightarrow> nat \<Rightarrow> nat \<Rightarrow> string option" where
  "grid_at data a b = (if a < length data \<and> b < length (data ! a) then data ! a ! b else None)"

definition grid_put :: "grid \<Rightarrow> nat \<Rightarrow> nat \<Rightarrow> string \<Rightarrow> grid" where
  "grid_put data a b v =
     (let d1 = extend_to [] data (int a)
      in d1[a := (extend_to None (d1 ! a) (int b))[b := Some v]])"

definition in_rect :: "nat \<Rightarrow> nat \<Rightarrow> nat \<Rightarrow> nat \<Rightarrow> nat \<Rightarrow> nat \<Rightarrow> bool" where
  "in_rect i j r c a b = (i \<le> a \<and> a < i + r \<and> j \<le> b \<and> b < j + c)"

definition is_header_row :: "cell list \<Rightarrow> bool" where
  "is_header_row cells = list_all (\<lambda>c. tag c = TH) cells"

definition spans_readable :: "cell list \<Rightarrow> bool" where
  "spans_readable cells =
     list_all (\<lambda>c. rowspan c \<noteq> Malformed \<and> colspan c \<noteq> Malformed) cells"

definition th :: "string \<Rightarrow> cell" where
  "th s = \<lparr>tag = TH, first_text = Some s, rowspan = Absent, colspan = Absent\<rparr>"

definition td :: "string \<Rightarrow> cell" where
  "td s = \<lparr>tag = TD, first_text = Some s, rowspan = Absent, colspan = Absent\<rparr>"


section \<open>Facts about GrowingList\<close>

lemma length_extend_to:
  "0 \<le> index \<Longrightarrow> length (extend_to d xs index) = max (length xs) (nat index + 1)"
  by (auto simp: extend_to_def)

lemma extend_to_nth_old:
  "k < length xs \<Longrightarrow> extend_to d xs index ! k = xs ! k"
  by (simp add: extend_to_def nth_append)

lemma extend_to_nth_new:
  "0 \<le> index \<Longrightarrow> length xs \<le> k \<Longrightarrow> k \<le> nat index \<Longrightarrow> extend_to d xs index ! k = d"
  by (auto simp: extend_to_def nth_append)

lemma GrowingList_getitem_nonneg:
  "0 \<le> index \<Longrightarrow>
   GrowingList_getitem d xs index
     = Inr (extend_to d xs index ! nat index, extend_to d xs index)"
  by (auto simp: GrowingList_getitem_def list_getitem_def py_index_def Let_def extend_to_def)

lemma GrowingList_setitem_nonneg:
  "0 \<le> index \<Longrightarrow>
   GrowingList_setitem d xs index v = Inr ((extend_to d xs index)[nat index := v])"
  by (auto simp: GrowingList_setitem_def list_setitem_def py_index_def Let_def extend_to_def)

lemma GrowingList_getitem_front:
  "index < - int (length xs) \<Longrightarrow> GrowingList_getitem d xs index = Inl IndexError"
  by (auto simp: GrowingList_getitem_def list_getitem_def py_index_def Let_def extend_to_def)

lemma GrowingList_setitem_front:
  "index < - int (length xs) \<Longrightarrow> GrowingList_setitem d xs index v = Inl IndexError"
  by (auto simp: GrowingList_setitem_def list_setitem_def py_index_def Let_def extend_to_def)

lemma GrowingList_getitem_back:
  "- int (length xs) \<le> index \<and> index < 0 \<Longrightarrow>
   GrowingList_getitem d xs index = Inr (xs ! nat (index + int (length xs)), xs)"
  by (auto simp: GrowingList_getitem_def list_getitem_def py_index_def Let_def extend_to_def)

lemma GrowingList_setitem_back:
  "- int (length xs) \<le> index \<and> index < 0 \<Longrightarrow>
   GrowingList_setitem d xs index v = Inr (xs[nat (index + int (length xs)) := v])"
  by (auto simp: GrowingList_setitem_def list_setitem_def py_index_def Let_def extend_to_def)

section \<open>Facts about push_data\<close>

lemma push_data_scan_nonneg:
  "0 \<le> i \<Longrightarrow>
   \<exists>k. push_data_scan row i = Inr (int k, extend_to None row (int k), False)
      \<and> nat i \<le> k
      \<and> (k < length row \<longrightarrow> row ! k = None)
      \<and> (\<forall>j. nat i \<le> j \<and> j < k \<longrightarrow> j < length row \<and> row ! j \<noteq> None)"
proof (induction row i rule: push_data_scan.induct)
  case (1 row i)
  note nonneg = \<open>0 \<le> i\<close>
  have get: "GrowingList_getitem None row i
               = Inr (extend_to None row i ! nat i, extend_to None row i)"
    using nonneg by (rule GrowingList_getitem_nonneg)
  show ?case
  proof (cases "int (length row) \<le> i")
    case True
    then have "extend_to None row i ! nat i = None"
      using nonneg by (intro extend_to_nth_new) auto
    with get have "push_data_scan row i = Inr (i, extend_to None row i, False)"
      by (simp add: push_data_scan.simps [of row i])
    with True nonneg show ?thesis
      by (intro exI [of _ "nat i"]) auto
  next
    case False
    then have same: "extend_to None row i = row"
      by (simp add: extend_to_def)
    show ?thesis
    proof (cases "row ! nat i")
      case None
      with get same have "push_data_scan row i = Inr (i, row, False)"
        by (simp add: push_data_scan.simps [of row i])
      with None False nonneg same show ?thesis
        by (intro exI [of _ "nat i"]) auto
    next
      case (Some a)
      with get same have step: "push_data_scan row i = push_data_scan row (i + 1)"
        by (simp add: push_data_scan.simps [of row i])
      from "1.IH" [OF get [unfolded same]] Some nonneg
      obtain k where k: "push_data_scan row (i + 1) = Inr (int k, extend_to None row (int k), False)"
        "nat (i + 1) \<le> k" "k < length row \<longrightarrow> row ! k = None"
        "\<forall>j. nat (i + 1) \<le> j \<and> j < k \<longrightarrow> j < length row \<and> row ! j \<noteq> None"
        by auto
      have "\<forall>j. nat i \<le> j \<and> j < k \<longrightarrow> j < length row \<and> row ! j \<noteq> None"
      proof (intro allI impI)
        fix j assume j: "nat i \<le> j \<and> j < k"
        show "j < length row \<and> row ! j \<noteq> None"
        proof (cases "j = nat i")
          case True
          with Some False nonneg show ?thesis by auto
        next
          case False
          with j nonneg have "nat (i + 1) \<le> j \<and> j < k" by auto
          with k(4) show ?thesis by blast
        qed
      qed
      with k step nonneg show ?thesis
        by (intro exI [of _ k]) auto
    qed
  qed
qed

lemma push_data_nonneg:
  assumes "0 \<le> i"
  shows "\<exists>k. push_data row i val = Inr (int k, (extend_to None row (int k))[k := Some val])
      \<and> push_data_scan row i = Inr (int k, extend_to None row (int k), False)
      \<and> nat i \<le> k
      \<and> (k < length row \<longrightarrow> row ! k = None)
      \<and> (\<forall>j. nat i \<le> j \<and> j < k \<longrightarrow> j < length row \<and> row ! j \<noteq> None)"
proof -
  from push_data_scan_nonneg [OF assms, of row]
  obtain k where k: "push_data_scan row i = Inr (int k, extend_to None row (int k), False)"
    "nat i \<le> k" "k < length row \<longrightarrow> row ! k = None"
    "\<forall>j. nat i \<le> j \<and> j < k \<longrightarrow> j < length row \<and> row ! j \<noteq> None"
    by blast
  have same: "extend_to None (extend_to None row (int k)) (int k) = extend_to None row (int k)"
    by (simp add: extend_to_def)
  have "push_data row i val = Inr (int k, (extend_to None row (int k))[k := Some val])"
    by (simp add: push_data_def k(1) GrowingList_setitem_nonneg same)
  with k show ?thesis by blast
qed

section \<open>Facts about the grid\<close>

lemma grid_assign_nonneg:
  "0 \<le> a \<Longrightarrow> 0 \<le> b \<Longrightarrow> grid_assign data a b v = Inr (grid_put data (nat a) (nat b) v)"
  by (simp add: grid_assign_def GrowingList_getitem_nonneg GrowingList_setitem_nonneg
      py_index_def grid_put_def Let_def)

lemma grid_at_extend_rows: "grid_at (extend_to [] data n) a b = grid_at data a b"
  by (auto simp: grid_at_def extend_to_def nth_append)

lemma row_at_extend:
  "(if b < length (extend_to None r n) then extend_to None r n ! b else None)
     = (if b < length r then r ! b else None)"
  by (auto simp: extend_to_def nth_append)

lemma grid_at_put:
  "grid_at (grid_put data a b v) a' b' = (if a' = a \<and> b' = b then Some v else grid_at data a' b')"
proof -
  let ?d1 = "extend_to [] data (int a)"
  let ?r = "extend_to None (?d1 ! a) (int b)"
  have la: "a < length ?d1" by (simp add: length_extend_to)
  have lb: "b < length ?r" by (simp add: length_extend_to)
  have put: "grid_put data a b v = ?d1[a := ?r[b := Some v]]"
    by (simp add: grid_put_def Let_def)
  show ?thesis
  proof (cases "a' = a")
    case True
    have "grid_at (grid_put data a b v) a b' = (if b' < length ?r then (?r[b := Some v]) ! b' else None)"
      using la by (simp add: put grid_at_def)
    also have "\<dots> = (if b' = b then Some v else (if b' < length ?r then ?r ! b' else None))"
      using lb by (auto simp: nth_list_update)
    also have "\<dots> = (if b' = b then Some v else (if b' < length (?d1 ! a) then ?d1 ! a ! b' else None))"
      by (simp only: row_at_extend)
    also have "\<dots> = (if b' = b then Some v else grid_at ?d1 a b')"
      using la by (simp add: grid_at_def)
    finally show ?thesis using True by (simp add: grid_at_extend_rows)
  next
    case False
    then have "grid_at (grid_put data a b v) a' b' = grid_at ?d1 a' b'"
      by (simp add: put grid_at_def)
    with False show ?thesis by (simp add: grid_at_extend_rows)
  qed
qed

lemma foldE_pure:
  "(\<And>x s. x \<in> set xs \<Longrightarrow> f x s = Inr (g x s)) \<Longrightarrow> foldE f xs s = Inr (fold g xs s)"
  by (induction xs arbitrary: s) simp_all

lemma grid_at_fold_cols:
  "grid_at (fold (\<lambda>dj d. grid_put d a (j + dj) v) djs d) a' b'
     = (if a' = a \<and> (\<exists>dj \<in> set djs. b' = j + dj) then Some v else grid_at d a' b')"
  by (induction djs arbitrary: d) (auto simp: grid_at_put)

lemma grid_at_fold_rect:
  "grid_at (fold (\<lambda>di. fold (\<lambda>dj d. grid_put d (i + di) (j + dj) v) djs) dis d) a' b'
     = (if (\<exists>di \<in> set dis. a' = i + di) \<and> (\<exists>dj \<in> set djs. b' = j + dj) then Some v
        else grid_at d a' b')"
  by (induction dis arbitrary: d) (auto simp: grid_at_fold_cols)

lemma populate_nonneg:
  assumes "0 \<le> i" "0 \<le> j"
  shows "populate data i j rs cs v
           = Inr (fold (\<lambda>di. fold (\<lambda>dj d. grid_put d (nat i + di) (nat j + dj) v) [0..<nat cs])
                    [0..<nat rs] data)"
proof -
  have inner: "foldE (\<lambda>dj d. grid_assign d (i + int di) (j + int dj) v) [0..<nat cs] d
                 = Inr (fold (\<lambda>dj d. grid_put d (nat i + di) (nat j + dj) v) [0..<nat cs] d)"
    for di d
    using assms by (intro foldE_pure) (simp add: grid_assign_nonneg nat_add_distrib)
  show ?thesis
    unfolding populate_def by (rule foldE_pure) (rule inner)
qed

lemma place_cell_nonneg:
  assumes "0 \<le> i" "0 \<le> j"
  shows "\<exists>k data'. place_cell data i j v rs cs = Inr (data', int k)
      \<and> nat j \<le> k
      \<and> (\<forall>a b. grid_at data' a b =
            (if (a = nat i \<and> b = k) \<or> in_rect (nat i) k (nat rs) (nat cs) a b then Some v
             else grid_at data a b))"
proof -
  let ?d1 = "extend_to [] data i"
  from push_data_nonneg [OF assms(2), of "?d1 ! nat i" v]
  obtain k where k: "push_data (?d1 ! nat i) j v
        = Inr (int k, (extend_to None (?d1 ! nat i) (int k))[k := Some v])"
    "nat j \<le> k"
    by blast
  have put: "?d1[nat i := (extend_to None (?d1 ! nat i) (int k))[k := Some v]]
               = grid_put data (nat i) k v"
    using assms(1) by (simp add: grid_put_def Let_def)
  let ?res = "fold (\<lambda>di. fold (\<lambda>dj d. grid_put d (nat i + di) (k + dj) v) [0..<nat cs])
                [0..<nat rs] (grid_put data (nat i) k v)"
  have pop: "populate (grid_put data (nat i) k v) i (int k) rs cs v = Inr ?res"
    using populate_nonneg [OF assms(1), of "int k" "grid_put data (nat i) k v" rs cs v] by simp
  have "place_cell data i j v rs cs = Inr (?res, int k)"
    using assms(1)
    by (simp add: place_cell_def GrowingList_getitem_nonneg k(1) py_index_def put pop)
  moreover have "grid_at ?res a b =
            (if (a = nat i \<and> b = k) \<or> in_rect (nat i) k (nat rs) (nat cs) a b then Some v
             else grid_at data a b)" for a b
  proof -
    have "(\<exists>di \<in> set [0..<nat rs]. a = nat i + di) \<longleftrightarrow> (nat i \<le> a \<and> a < nat i + nat rs)"
      by (auto intro: bexI [of _ "a - nat i"])
    moreover have "(\<exists>dj \<in> set [0..<nat cs]. b = k + dj) \<longleftrightarrow> (k \<le> b \<and> b < k + nat cs)"
      by (auto intro: bexI [of _ "b - k"])
    ultimately show ?thesis
      by (simp add: grid_at_fold_rect grid_at_put in_rect_def)
  qed
  ultimately show ?thesis using k(2) by blast
qed

lemma span_int_readable: "a \<noteq> Malformed \<Longrightarrow> \<exists>n. span_int a = Inr n"
  by (cases a) (simp_all add: span_int_def)

lemma cell_step_readable:
  assumes "0 \<le> i" "0 \<le> j" "rowspan c \<noteq> Malformed" "colspan c \<noteq> Malformed"
  shows "\<exists>data' j'. cell_step i c (data, j, h) = Inr (data', j', h \<and> tag c = TH) \<and> 0 \<le> j'"
proof -
  from assms(3,4) obtain rs cs where sp: "span_int (rowspan c) = Inr rs" "span_int (colspan c) = Inr cs"
    using span_int_readable by blast
  let ?v = "rstrip (case first_text c of None \<Rightarrow> [] | Some t \<Rightarrow> t)"
  from place_cell_nonneg [OF assms(1,2), of data ?v rs cs]
  obtain k data' where "place_cell data i j ?v rs cs = Inr (data', int k)" by blast
  then have "cell_step i c (data, j, h) = Inr (data', int k + 1, h \<and> tag c = TH)"
    by (auto simp: cell_step_def sp Let_def)
  then show ?thesis by force
qed

lemma cells_loop_readable:
  "0 \<le> i \<Longrightarrow> 0 \<le> j \<Longrightarrow> spans_readable cells \<Longrightarrow>
   \<exists>data' j'. foldE (cell_step i) cells (data, j, h) = Inr (data', j', h \<and> is_header_row cells)"
proof (induction cells arbitrary: data j h)
  case Nil
  then show ?case by (simp add: is_header_row_def)
next
  case (Cons c cells)
  from Cons.prems have rd: "rowspan c \<noteq> Malformed" "colspan c \<noteq> Malformed" "spans_readable cells"
    by (simp_all add: spans_readable_def)
  from cell_step_readable [OF Cons.prems(1,2) rd(1,2), of data h]
  obtain d1 j1 where s: "cell_step i c (data, j, h) = Inr (d1, j1, h \<and> tag c = TH)" "0 \<le> j1"
    by blast
  from Cons.IH [OF Cons.prems(1) s(2) rd(3), of d1 "h \<and> tag c = TH"]
  obtain d2 j2 where "foldE (cell_step i) cells (d1, j1, h \<and> tag c = TH)
       = Inr (d2, j2, (h \<and> tag c = TH) \<and> is_header_row cells)"
    by blast
  with s(1) show ?case by (simp add: is_header_row_def)
qed

lemma row_step_readable:
  assumes "spans_readable cells"
  shows "\<exists>data'. row_step (i, cells) (data, hc)
           = Inr (data', if is_header_row cells then hc + 1 else hc)"
proof -
  from cells_loop_readable [of "int i" 0 cells data True] assms
  obtain d j where "foldE (cell_step (int i)) cells (data, 0, True) = Inr (d, j, is_header_row cells)"
    by auto
  then show ?thesis by (simp add: row_step_def)
qed

lemma rows_loop_readable:
  "list_all spans_readable table \<Longrightarrow>
   \<exists>data'. foldE row_step (enumerate n table) (data, hc)
            = Inr (data', hc + length (filter is_header_row table))"
proof (induction table arbitrary: n data hc)
  case Nil
  then show ?case by simp
next
  case (Cons cells table)
  from Cons.prems have rd: "spans_readable cells" "list_all spans_readable table" by simp_all
  from row_step_readable [OF rd(1), of n data hc]
  obtain d1 where s: "row_step (n, cells) (data, hc)
       = Inr (d1, if is_header_row cells then hc + 1 else hc)" by blast
  from Cons.IH [OF rd(2), of "Suc n" d1 "if is_header_row cells then hc + 1 else hc"]
  obtain d2 where "foldE row_step (enumerate (Suc n) table)
        (d1, if is_header_row cells then hc + 1 else hc)
      = Inr (d2, (if is_header_row cells then hc + 1 else hc) + length (filter is_header_row table))"
    by blast
  with s show ?case by auto
qed

lemma table_data_header_count:
  "list_all spans_readable table \<Longrightarrow>
   \<exists>data. table_data table = Inr (data, length (filter is_header_row table))"
  using rows_loop_readable [of table 0 "[]" 0] by (simp add: table_data_def)

section \<open>Facts about the URL codec and dicts\<close>

lemma str_split_none: "c \<notin> set x \<Longrightarrow> str_split c x = [x]"
  by (induction x) auto

lemma str_split_app: "c \<notin> set x \<Longrightarrow> str_split c (x @ c # rest) = x # str_split c rest"
  by (induction x) auto

lemma str_split_join:
  "items \<noteq> [] \<Longrightarrow> \<forall>x \<in> set items. c \<notin> set x \<Longrightarrow> str_split c (str_join [c] items) = items"
proof (induction items)
  case Nil
  then show ?case by simp
next
  case (Cons x items)
  show ?case
  proof (cases items)
    case Nil
    with Cons.prems show ?thesis by (simp add: str_split_none)
  next
    case (Cons y ys)
    with Cons.prems Cons.IH show ?thesis by (simp add: str_split_app)
  qed
qed

lemma set_str_join:
  "set (str_join sep items) \<subseteq> set sep \<union> (\<Union>x \<in> set items. set x)"
  by (induction sep items rule: str_join.induct) auto

lemma dict_of_pairs_distinct_aux:
  "distinct (map fst (acc @ ps)) \<Longrightarrow> fold (\<lambda>(k, v). AList.update k v) ps acc = acc @ ps"
proof (induction ps arbitrary: acc)
  case Nil
  then show ?case by simp
next
  case (Cons p ps)
  obtain k v where p: "p = (k, v)" by (cases p)
  from Cons.prems p have "k \<notin> fst ` set acc" by auto
  then have "AList.update k v acc = acc @ [(k, v)]"
    by (induction acc) auto
  moreover from Cons.prems have "distinct (map fst ((acc @ [p]) @ ps))" by simp
  ultimately show ?case using Cons.IH [of "acc @ [p]"] p by simp
qed

lemma dict_of_pairs_distinct: "distinct (map fst ps) \<Longrightarrow> dict_of_pairs ps = ps"
  using dict_of_pairs_distinct_aux [of "[]" ps] by (simp add: dict_of_pairs_def)

lemma param_pairs_items:
  "\<forall>(k, v) \<in> set ps. CHR ''='' \<notin> set k \<and> CHR ''='' \<notin> set v \<Longrightarrow>
   param_pairs (map (\<lambda>(k, v). k @ ''='' @ v) ps) = Inr ps"
proof (induction ps)
  case Nil
  then show ?case by simp
next
  case (Cons p ps)
  obtain k v where p: "p = (k, v)" by (cases p)
  with Cons.prems have "str_split (CHR ''='') (k @ ''='' @ v) = [k, v]"
    by (simp add: str_split_app str_split_none)
  with Cons p show ?case by simp
qed

lemma url_match_join:
  assumes "newline \<notin> set base" "CHR ''?'' \<notin> set q" "newline \<notin> set q"
  shows "url_match (base @ ''?'' @ q) = Some (base, q)"
proof -
  let ?url = "base @ ''?'' @ q"
  have qn: "CHR ''?'' \<noteq> newline" by (simp add: newline_def)
  have nl: "\<forall>c \<in> set ?url. c \<noteq> newline" using assms qn by auto
  have line: "takeWhile (\<lambda>c. c \<noteq> newline) ?url = ?url"
    using nl by (simp only: takeWhile_eq_all_conv)
  have rest: "dropWhile (\<lambda>c. c \<noteq> newline) ?url = []"
    using nl by (simp only: dropWhile_eq_Nil_conv)
  have r: "rev ?url = rev q @ CHR ''?'' # rev base" by simp
  have t: "takeWhile (\<lambda>c. c \<noteq> CHR ''?'') (rev ?url) = rev q"
    unfolding r using assms(2) by (auto simp: takeWhile_tail)
  have d: "dropWhile (\<lambda>c. c \<noteq> CHR ''?'') (rev ?url) = CHR ''?'' # rev base"
    unfolding r using assms(2) by (auto simp: dropWhile_append3)
  have "CHR ''?'' \<in> set ?url" by simp
  then show ?thesis
    unfolding url_match_def Let_def line rest t d by simp
qed

lemma split_join_url:
  assumes "CHR ''?'' \<notin> set base" "newline \<notin> set base" "params \<noteq> []"
    "distinct (map fst params)"
    "\<forall>(k, v) \<in> set params. \<forall>c \<in> {CHR ''?'', CHR ''&'', CHR ''='', newline}. c \<notin> set k \<and> c \<notin> set v"
  shows "split_url (join_url base params) = Inr (base, params)"
proof -
  let ?items = "map (\<lambda>(k, v). k @ ''='' @ v) params"
  let ?q = "str_join ''&'' ?items"
  have items: "\<forall>x \<in> set ?items. CHR ''&'' \<notin> set x \<and> CHR ''?'' \<notin> set x \<and> newline \<notin> set x"
    using assms(5) by (auto simp: newline_def)
  have "set ?q \<subseteq> set ''&'' \<union> (\<Union>x \<in> set ?items. set x)"
    by (rule set_str_join)
  with items have q: "CHR ''?'' \<notin> set ?q" "newline \<notin> set ?q"
    by (auto simp: newline_def)
  have m: "url_match (join_url base params) = Some (base, ?q)"
    unfolding join_url_def using assms(2) q by (rule url_match_join)
  have "?items \<noteq> []" using assms(3) by simp
  with items have s: "str_split (CHR ''&'') ?q = ?items"
    by (intro str_split_join) auto
  have p: "param_pairs ?items = Inr params"
    using assms(5) by (intro param_pairs_items) auto
  have "split_url (join_url base params)
          = (case param_pairs (str_split (CHR ''&'') ?q) of
               Inl e \<Rightarrow> Inl e
             | Inr ps \<Rightarrow> Inr (base, dict_of_pairs ps))"
    by (simp only: split_url_def m option.case prod.case)
  also have "\<dots> = Inr (base, dict_of_pairs params)"
    by (simp only: s p sum.case)
  finally show ?thesis
    by (simp only: dict_of_pairs_distinct [OF assms(4)])
qed







section \<open>Facts about header counts, the walker and the csv action\<close>

lemma filter_takeWhile_dropWhile:
  "filter P xs = takeWhile P xs @ filter P (dropWhile P xs)"
  by (induction xs) simp_all

lemma length_filter_takeWhile:
  "length (filter P xs) = length (takeWhile P xs)
     \<longleftrightarrow> list_all (\<lambda>x. \<not> P x) (dropWhile P xs)"
proof -
  have "length (filter P xs) = length (takeWhile P xs) + length (filter P (dropWhile P xs))"
    by (subst filter_takeWhile_dropWhile) simp
  then have "length (filter P xs) = length (takeWhile P xs)
               \<longleftrightarrow> filter P (dropWhile P xs) = []"
    by simp
  also have "\<dots> \<longleftrightarrow> (\<forall>x \<in> set (dropWhile P xs). \<not> P x)"
    by (simp only: filter_empty_conv)
  finally show ?thesis by (simp add: list_all_iff)
qed

lemma cell_step_malformed:
  "rowspan c = Malformed \<or> colspan c = Malformed \<Longrightarrow>
   cell_step i c (data, j, h) = Inl ValueError"
  by (auto simp: cell_step_def span_int_def Let_def split: span_attr.splits)

lemma cells_loop_malformed:
  "0 \<le> i \<Longrightarrow> 0 \<le> j \<Longrightarrow> \<not> spans_readable cells \<Longrightarrow>
   foldE (cell_step i) cells (data, j, h) = Inl ValueError"
proof (induction cells arbitrary: data j h)
  case Nil
  then show ?case by (simp add: spans_readable_def)
next
  case (Cons c cells)
  show ?case
  proof (cases "rowspan c = Malformed \<or> colspan c = Malformed")
    case True
    then show ?thesis by (simp add: cell_step_malformed)
  next
    case False
    with Cons.prems(3) have rest: "\<not> spans_readable cells"
      by (simp add: spans_readable_def)
    from False have "rowspan c \<noteq> Malformed" "colspan c \<noteq> Malformed" by simp_all
    from cell_step_readable [OF Cons.prems(1,2) this, of data h]
    obtain d1 j1 where s: "cell_step i c (data, j, h) = Inr (d1, j1, h \<and> tag c = TH)" "0 \<le> j1"
      by blast
    from Cons.IH [OF Cons.prems(1) s(2) rest, of d1 "h \<and> tag c = TH"] s(1)
    show ?thesis by simp
  qed
qed

lemma row_step_malformed:
  "\<not> spans_readable cells \<Longrightarrow> row_step (i, cells) (data, hc) = Inl ValueError"
  using cells_loop_malformed [of "int i" 0 cells data True] by (simp add: row_step_def)

lemma rows_loop_malformed:
  "\<not> list_all spans_readable table \<Longrightarrow>
   foldE row_step (enumerate n table) (data, hc) = Inl ValueError"
proof (induction table arbitrary: n data hc)
  case Nil
  then show ?case by simp
next
  case (Cons cells table)
  show ?case
  proof (cases "spans_readable cells")
    case True
    with Cons.prems have rest: "\<not> list_all spans_readable table" by simp
    from row_step_readable [OF True, of n data hc]
    obtain d1 where s: "row_step (n, cells) (data, hc)
       = Inr (d1, if is_header_row cells then hc + 1 else hc)" by blast
    from Cons.IH [OF rest, of "Suc n" d1 "if is_header_row cells then hc + 1 else hc"] s
    show ?thesis by simp
  next
    case False
    then show ?thesis by (simp add: row_step_malformed)
  qed
qed

lemma table_data_malformed:
  "\<not> list_all spans_readable table \<Longrightarrow> table_data table = Inl ValueError"
  by (simp add: table_data_def rows_loop_malformed)

lemma csv_action_NameError:
  "names \<noteq> [] \<Longrightarrow> csv_action pfx feeds names = Inl NameError"
  by (cases names)
     (simp_all add: csv_action_def csv_catalogue_def csv_feed_json_def module_globals_def)

lemma parse_zero_header_count:
  assumes "table_data table = Inr (data, 0)"
  shows "parse table =
           (if data = [] then Inl IndexError
            else Inr (concat (map (emit_row (last data)) data)))"
proof (cases "data = []")
  case True
  with assms show ?thesis
    by (simp add: parse_def GrowingList_getitem_def list_getitem_def py_index_def extend_to_def)
next
  case False
  then have "GrowingList_getitem [] data (- 1) = Inr (last data, data)"
    by (cases data rule: rev_cases)
       (auto simp: GrowingList_getitem_def list_getitem_def py_index_def extend_to_def
          Let_def nth_append)
  with assms False show ?thesis by (simp add: parse_def)
qed





lemma join_url_params_order:
  assumes "params \<noteq> []"
    "\<forall>(k, v) \<in> set params. CHR ''&'' \<notin> set k \<and> CHR ''&'' \<notin> set v"
  shows "str_split (CHR ''&'') (drop (Suc (length base)) (join_url base params))
           = map (\<lambda>(k, v). k @ ''='' @ v) params"
proof -
  let ?items = "map (\<lambda>(k, v). k @ ''='' @ v) params"
  have "drop (Suc (length base)) (join_url base params) = str_join ''&'' ?items"
    by (simp add: join_url_def)
  moreover have "str_split (CHR ''&'') (str_join ''&'' ?items) = ?items"
    using assms by (intro str_split_join) auto
  ultimately show ?thesis by (simp only:)
qed

section \<open>The claims\<close>

subsection \<open>C1: CSV materializer\<close>

text \<open>
  C1 (the code departs from the claim).  The claim: for every requested catalogue whose
  feed store holds a list of product records, the \<open>csv\<close> action loads the records,
  takes the union of the core keys with every detail key as the header set and emits
  one row per record, missing fields left blank.

  On the code the action raises before it reads anything: the block computes the feed
  file name from the unqualified name \<open>FEED_URI\<close>, which is bound in no module scope
  (the \<open>scrape\<close> block writes \<open>BoltDepotSpider.FEED_URI\<close>), so the first requested
  catalogue ends the run with NameError, whatever its feed store holds.  Past that
  line a second slip waits: a record without \<open>image_url\<close> (the field is optional)
  makes \<open>item[k] for k in KEYS\<close> raise KeyError where the claim wants a blank cell.
\<close>

theorem csv_action_raises:
  "csv_action ''boltdepot-''
      [''boltdepot-scrape-bolts.json'' \<mapsto>
         [\<lparr>item_id = ''1'', item_name = ''n'', item_url = ''u?product=1'',
           item_details = [(''A'', ''x'')], item_image_url = Some ''i''\<rparr>]]
      [''bolts'']
     = Inl NameError
   \<and> csv_convert
        [\<lparr>item_id = ''1'', item_name = ''n'', item_url = ''u?product=1'',
          item_details = [(''A'', ''x'')], item_image_url = None\<rparr>]
     = Inl KeyError"
  by (simp add: csv_action_def csv_catalogue_def csv_feed_json_def module_globals_def
      csv_convert_def csv_row_def KEYS_def item_getitem_def)

subsection \<open>C2: GrowingList access\<close>

text \<open>
  C2 (as stated, refuted).  The claim says that neither access raises for an index out
  of range in either direction.  On the empty sequence, index \<open>-1\<close> lies past the
  front: the guard \<open>index >= len(self)\<close> is false, nothing is extended, and the
  built-in access raises IndexError, for reading and for writing.
\<close>

theorem GrowingList_negative_index_raises:
  "GrowingList_getitem (None :: string option) [] (- 1) = Inl IndexError
   \<and> GrowingList_setitem (None :: string option) [] (- 1) (Some ''v'') = Inl IndexError"
  by (simp add: GrowingList_getitem_def GrowingList_setitem_def list_getitem_def
      list_setitem_def py_index_def extend_to_def)

text \<open>
  C2 (amended).  For every index that is not negative, reading and writing never
  raise: the sequence is first extended with the factory's output up to the index (its
  length becomes the larger of the old length and \<open>index + 1\<close>, old items are kept and
  every new slot holds the default), then the read returns the item at the index and
  the write stores the value there.  A negative index is never extended for: from
  \<open>-len\<close> on it counts from the end, as on a built-in list, and below \<open>-len\<close> both
  methods raise IndexError.
\<close>

theorem GrowingList_access_never_raises_nonneg:
  "(0 \<le> index \<longrightarrow>
      (\<exists>xs'. GrowingList_getitem d xs index = Inr (xs' ! nat index, xs')
         \<and> GrowingList_setitem d xs index v = Inr (xs'[nat index := v])
         \<and> length xs' = max (length xs) (nat index + 1)
         \<and> (\<forall>k < length xs. xs' ! k = xs ! k)
         \<and> (\<forall>k. length xs \<le> k \<and> k < length xs' \<longrightarrow> xs' ! k = d)))
   \<and> (- int (length xs) \<le> index \<and> index < 0 \<longrightarrow>
        GrowingList_getitem d xs index = Inr (xs ! nat (index + int (length xs)), xs)
        \<and> GrowingList_setitem d xs index v = Inr (xs[nat (index + int (length xs)) := v]))
   \<and> (index < - int (length xs) \<longrightarrow>
        GrowingList_getitem d xs index = Inl IndexError
        \<and> GrowingList_setitem d xs index v = Inl IndexError)"
proof (intro conjI impI)
  assume nonneg: "0 \<le> index"
  let ?xs' = "extend_to d xs index"
  have "GrowingList_getitem d xs index = Inr (?xs' ! nat index, ?xs')"
    using nonneg by (rule GrowingList_getitem_nonneg)
  moreover have "GrowingList_setitem d xs index v = Inr (?xs'[nat index := v])"
    using nonneg by (rule GrowingList_setitem_nonneg)
  moreover have "length ?xs' = max (length xs) (nat index + 1)"
    using nonneg by (rule length_extend_to)
  moreover have "\<forall>k < length xs. ?xs' ! k = xs ! k"
    by (simp add: extend_to_nth_old)
  moreover have "\<forall>k. length xs \<le> k \<and> k < length ?xs' \<longrightarrow> ?xs' ! k = d"
    using nonneg by (auto simp: length_extend_to intro: extend_to_nth_new)
  ultimately show "\<exists>xs'. GrowingList_getitem d xs index = Inr (xs' ! nat index, xs')
         \<and> GrowingList_setitem d xs index v = Inr (xs'[nat index := v])
         \<and> length xs' = max (length xs) (nat index + 1)
         \<and> (\<forall>k < length xs. xs' ! k = xs ! k)
         \<and> (\<forall>k. length xs \<le> k \<and> k < length xs' \<longrightarrow> xs' ! k = d)"
    by blast
next
  assume "- int (length xs) \<le> index \<and> index < 0"
  then show "GrowingList_getitem d xs index = Inr (xs ! nat (index + int (length xs)), xs)"
    by (rule GrowingList_getitem_back)
next
  assume "- int (length xs) \<le> index \<and> index < 0"
  then show "GrowingList_setitem d xs index v = Inr (xs[nat (index + int (length xs)) := v])"
    by (rule GrowingList_setitem_back)
next
  assume "index < - int (length xs)"
  then show "GrowingList_getitem d xs index = Inl IndexError"
    by (rule GrowingList_getitem_front)
next
  assume "index < - int (length xs)"
  then show "GrowingList_setitem d xs index v = Inl IndexError"
    by (rule GrowingList_setitem_front)
qed

text \<open>
  The amended C2 at the spec's example: \<open>set(5, "v")\<close> on the empty sequence gives a
  sequence of length 6 whose slots 0 to 4 hold the default and whose slot 5 holds the
  value, and \<open>get(2)\<close> on it returns the default.
\<close>

theorem GrowingList_access_never_raises_nonneg_witness:
  "GrowingList_setitem None [] 5 (Some ''v'')
     = Inr [None, None, None, None, None, Some ''v'']
   \<and> GrowingList_getitem None [None, None, None, None, None, Some ''v''] 2
     = Inr (None, [None, None, None, None, None, Some ''v''])
   \<and> GrowingList_getitem (None :: string option) [] (- 1) = Inl IndexError"
proof -
  have a: "(0::int) \<le> 5" and b: "(0::int) \<le> 2" and c: "(- 1 :: int) < - int (length ([] :: string option list))"
    by simp_all
  from GrowingList_access_never_raises_nonneg
         [of 5 "None :: string option" "[]" "Some ''v''"] a
  obtain xs' where s: "GrowingList_setitem None [] 5 (Some ''v'') = Inr (xs'[nat 5 := Some ''v''])"
    and l: "length xs' = max (length ([] :: string option list)) (nat 5 + 1)"
    and n: "\<forall>k. length ([] :: string option list) \<le> k \<and> k < length xs' \<longrightarrow> xs' ! k = None"
    by blast
  have "xs' = [None, None, None, None, None, None]"
    using l n by (auto simp: list_eq_iff_nth_eq nth_Cons' )
  with s have 1: "GrowingList_setitem None [] 5 (Some ''v'')
     = Inr [None, None, None, None, None, Some ''v'']"
    by simp
  from GrowingList_access_never_raises_nonneg
         [of 2 "None :: string option" "[None, None, None, None, None, Some ''v'']" None] b
  obtain ys where g: "GrowingList_getitem None [None, None, None, None, None, Some ''v''] 2
         = Inr (ys ! nat 2, ys)"
    and l2: "length ys = max (length [None, None, None, None, None, Some ''v'']) (nat 2 + 1)"
    and o: "\<forall>k < length [None, None, None, None, None, Some ''v'']. ys ! k = [None, None, None, None, None, Some ''v''] ! k"
    by blast
  have "ys = [None, None, None, None, None, Some ''v'']"
    using l2 o by (simp add: list_eq_iff_nth_eq)
  with g have 2: "GrowingList_getitem None [None, None, None, None, None, Some ''v''] 2
     = Inr (None, [None, None, None, None, None, Some ''v''])"
    by simp
  from GrowingList_access_never_raises_nonneg
         [of "- 1" "None :: string option" "[]" None] c
  have 3: "GrowingList_getitem (None :: string option) [] (- 1) = Inl IndexError"
    by blast
  from 1 2 3 show ?thesis by blast
qed

subsection \<open>C3: Tables without a header row\<close>


subsection \<open>C4: The header row count\<close>

text \<open>
  C4 (as stated, refuted).  The claim says the count equals the number of leading rows
  made of header cells only.  A plain row followed by a header row has no leading
  header row, and the extractor returns 1.
\<close>

theorem table_data_counts_nonleading_header_row:
  "table_data [[td ''a''], [th ''b'']] = Inr ([[Some ''a''], [Some ''b'']], 1)
   \<and> length (takeWhile is_header_row [[td ''a''], [th ''b'']]) = 0"
  by code_simp

text \<open>
  C4 (amended).  For every table whose span attributes read as integers, the extractor
  returns, and \<open>header_row_count\<close> is the number of rows anywhere in the table all of
  whose cells are header cells.  That number is the number of leading such rows exactly
  when no such row comes after a row that has a plain cell.  A span attribute that does
  not read as an integer makes the extractor raise ValueError.
\<close>

theorem table_data_counts_every_header_row:
  "(list_all spans_readable table \<longrightarrow>
      (\<exists>data. table_data table = Inr (data, length (filter is_header_row table)))
      \<and> (length (filter is_header_row table) = length (takeWhile is_header_row table)
           \<longleftrightarrow> list_all (\<lambda>cells. \<not> is_header_row cells) (dropWhile is_header_row table)))
   \<and> (\<not> list_all spans_readable table \<longrightarrow> table_data table = Inl ValueError)"
proof (intro conjI impI)
  assume "list_all spans_readable table"
  then show "\<exists>data. table_data table = Inr (data, length (filter is_header_row table))"
    by (rule table_data_header_count)
next
  show "length (filter is_header_row table) = length (takeWhile is_header_row table)
           \<longleftrightarrow> list_all (\<lambda>cells. \<not> is_header_row cells) (dropWhile is_header_row table)"
    by (rule length_filter_takeWhile)
next
  assume "\<not> list_all spans_readable table"
  then show "table_data table = Inl ValueError"
    by (rule table_data_malformed)
qed

text \<open>
  The amended C4 at the spec's example: two leading header rows and three data rows
  give the count 2.  A cell whose rowspan does not read as an integer gives ValueError.
\<close>

theorem table_data_counts_every_header_row_witness:
  "(\<exists>data. table_data [[th ''h1'', th ''h2''], [th ''a'', th ''b''], [td ''1'', td ''2''],
                        [td ''3'', td ''4''], [td ''5'', td ''6'']] = Inr (data, 2))
   \<and> table_data [[\<lparr>tag = TD, first_text = Some ''x'', rowspan = Malformed, colspan = Absent\<rparr>]]
        = Inl ValueError"
proof -
  let ?t = "[[th ''h1'', th ''h2''], [th ''a'', th ''b''], [td ''1'', td ''2''],
             [td ''3'', td ''4''], [td ''5'', td ''6'']]"
  let ?m = "[[\<lparr>tag = TD, first_text = Some ''x'', rowspan = Malformed, colspan = Absent\<rparr>]]"
  have "list_all spans_readable ?t"
    by (simp add: spans_readable_def th_def td_def)
  with table_data_counts_every_header_row [of ?t]
  obtain data where "table_data ?t = Inr (data, length (filter is_header_row ?t))" by blast
  moreover have "length (filter is_header_row ?t) = 2"
    by (simp add: is_header_row_def th_def td_def)
  ultimately have 1: "\<exists>data. table_data ?t = Inr (data, 2)" by simp
  have "\<not> list_all spans_readable ?m"
    by (simp add: spans_readable_def)
  with table_data_counts_every_header_row [of ?m]
  have 2: "table_data ?m = Inl ValueError" by blast
  from 1 2 show ?thesis by blast
qed

subsection \<open>C5: Order of the phases\<close>



subsection \<open>C6: Merged cells\<close>

text \<open>
  C6.  Placing a cell with value \<open>v\<close> and spans \<open>rs\<close>, \<open>cs\<close> in row \<open>i\<close> with the
  column cursor at \<open>j\<close> never raises.  It finds a column \<open>k\<close> at or after \<open>j\<close>, and
  in the grid it leaves the value stands at \<open>(i, k)\<close> and at every position of the
  rectangle \<open>[i, i+rs) \<times> [k, k+cs)\<close>; every other position reads as before.
\<close>

theorem place_cell_fills_rectangle:
  "0 \<le> i \<Longrightarrow> 0 \<le> j \<Longrightarrow>
   \<exists>k data'. place_cell data i j v rs cs = Inr (data', int k)
      \<and> nat j \<le> k
      \<and> grid_at data' (nat i) k = Some v
      \<and> (\<forall>a b. in_rect (nat i) k (nat rs) (nat cs) a b \<longrightarrow> grid_at data' a b = Some v)
      \<and> (\<forall>a b. \<not> in_rect (nat i) k (nat rs) (nat cs) a b \<and> (a, b) \<noteq> (nat i, k)
            \<longrightarrow> grid_at data' a b = grid_at data a b)"
proof -
  assume "0 \<le> i" "0 \<le> j"
  from place_cell_nonneg [OF this, of data v rs cs]
  obtain k data' where p: "place_cell data i j v rs cs = Inr (data', int k)" "nat j \<le> k"
    and g: "\<forall>a b. grid_at data' a b =
            (if (a = nat i \<and> b = k) \<or> in_rect (nat i) k (nat rs) (nat cs) a b then Some v
             else grid_at data a b)"
    by blast
  from g have "grid_at data' (nat i) k = Some v" by simp
  moreover from g have "\<forall>a b. in_rect (nat i) k (nat rs) (nat cs) a b \<longrightarrow> grid_at data' a b = Some v"
    by simp
  moreover from g have "\<forall>a b. \<not> in_rect (nat i) k (nat rs) (nat cs) a b \<and> (a, b) \<noteq> (nat i, k)
            \<longrightarrow> grid_at data' a b = grid_at data a b"
    by auto
  ultimately show ?thesis using p by blast
qed

text \<open>
  C6 at the spec's example: a cell \<open>X\<close> with rowspan 2 and colspan 1 placed at
  \<open>(0, 0)\<close> of the empty grid stands at \<open>(0, 0)\<close> and \<open>(1, 0)\<close>, also in the grid
  the extractor returns for the table that has this one cell.
\<close>

theorem place_cell_fills_rectangle_witness:
  "place_cell [] 0 0 ''X'' 2 1 = Inr ([[Some ''X''], [Some ''X'']], 0)
   \<and> grid_at [[Some ''X''], [Some ''X'']] 0 0 = Some ''X''
   \<and> grid_at [[Some ''X''], [Some ''X'']] 1 0 = Some ''X''
   \<and> table_data [[\<lparr>tag = TD, first_text = Some ''X'', rowspan = Literal 2, colspan = Literal 1\<rparr>]]
       = Inr ([[Some ''X''], [Some ''X'']], 0)"
proof -
  have e: "place_cell [] 0 0 ''X'' 2 1 = Inr ([[Some ''X''], [Some ''X'']], 0)"
    by code_simp
  have "(0::int) \<le> 0" by simp
  from place_cell_fills_rectangle [OF this this, of "[]" "''X''" 2 1] e
  have r: "\<forall>a b. in_rect 0 0 2 1 a b \<longrightarrow> grid_at [[Some ''X''], [Some ''X'']] a b = Some ''X''"
    by auto
  have "in_rect 0 0 2 1 0 0" "in_rect 0 0 2 1 1 0" by (simp_all add: in_rect_def)
  with r have "grid_at [[Some ''X''], [Some ''X'']] 0 0 = Some ''X''"
    "grid_at [[Some ''X''], [Some ''X'']] 1 0 = Some ''X''" by blast+
  moreover have "table_data [[\<lparr>tag = TD, first_text = Some ''X'', rowspan = Literal 2, colspan = Literal 1\<rparr>]]
       = Inr ([[Some ''X''], [Some ''X'']], 0)"
    by code_simp
  ultimately show ?thesis using e by blast
qed

subsection \<open>C7: Empty records\<close>



subsection \<open>C8: Joining and splitting a URL\<close>

text \<open>
  C8 (as stated, refuted).  The claim excludes \<open>?\<close>, \<open>&\<close> and \<open>=\<close> only.  A value
  that ends in a newline meets its hypotheses, and the pattern's \<open>$\<close> matches before
  that newline: the split returns the value without it.  With a newline in the base
  path the pattern does not match at all and the split raises AttributeError.
\<close>

theorem split_url_join_url_newline:
  "split_url (join_url ''b'' [(''k'', [CHR ''v'', CHR 0x0A])]) = Inr (''b'', [(''k'', ''v'')])
   \<and> split_url (join_url ''b'' [(''k'', [CHR ''v'', CHR 0x0A])])
       \<noteq> Inr (''b'', [(''k'', [CHR ''v'', CHR 0x0A])])
   \<and> split_url (join_url [CHR ''b'', CHR 0x0A] [(''k'', ''v'')]) = Inl AttributeError"
  by (simp add: split_url_def join_url_def url_match_def newline_def dict_of_pairs_def)

text \<open>
  C8 (amended).  For every base path without \<open>?\<close> and newline, and every non-empty
  mapping with distinct keys whose keys and values contain none of \<open>?\<close>, \<open>&\<close>, \<open>=\<close>
  and newline, splitting the joined URL returns the base path and the mapping, and the
  parameters of the joined URL stand in the mapping's iteration order.
\<close>

theorem split_url_join_url:
  assumes "CHR ''?'' \<notin> set base" "newline \<notin> set base" "params \<noteq> []"
    "distinct (map fst params)"
    "\<forall>(k, v) \<in> set params.
       \<forall>c \<in> {CHR ''?'', CHR ''&'', CHR ''='', newline}. c \<notin> set k \<and> c \<notin> set v"
  shows "split_url (join_url base params) = Inr (base, params)
     \<and> str_split (CHR ''&'') (drop (Suc (length base)) (join_url base params))
         = map (\<lambda>(k, v). k @ ''='' @ v) params"
proof
  show "split_url (join_url base params) = Inr (base, params)"
    using assms by (rule split_join_url)
next
  have "\<forall>(k, v) \<in> set params. CHR ''&'' \<notin> set k \<and> CHR ''&'' \<notin> set v"
    using assms(5) by fastforce
  with assms(3)
  show "str_split (CHR ''&'') (drop (Suc (length base)) (join_url base params))
         = map (\<lambda>(k, v). k @ ''='' @ v) params"
    by (rule join_url_params_order)
qed

text \<open>The amended C8 at a product URL with two parameters.\<close>

theorem split_url_join_url_witness:
  "join_url ''http://x/p.aspx'' [(''product'', ''12''), (''a'', ''b'')] = ''http://x/p.aspx?product=12&a=b''
   \<and> split_url ''http://x/p.aspx?product=12&a=b''
        = Inr (''http://x/p.aspx'', [(''product'', ''12''), (''a'', ''b'')])"
proof -
  let ?base = "''http://x/p.aspx''" and ?params = "[(''product'', ''12''), (''a'', ''b'')]"
  have j: "join_url ?base ?params = ''http://x/p.aspx?product=12&a=b''"
    by (simp add: join_url_def)
  have "CHR ''?'' \<notin> set ?base" "newline \<notin> set ?base" "?params \<noteq> []"
    "distinct (map fst ?params)"
    "\<forall>(k, v) \<in> set ?params.
       \<forall>c \<in> {CHR ''?'', CHR ''&'', CHR ''='', newline}. c \<notin> set k \<and> c \<notin> set v"
    by (simp_all add: newline_def)
  from split_url_join_url [OF this]
  have "split_url (join_url ?base ?params) = Inr (?base, ?params)" by blast
  with j show ?thesis by simp
qed

subsection \<open>C9: push_data\<close>

text \<open>
  C9.  For every row buffer and every start index \<open>i\<close> that is not negative,
  \<open>push_data\<close> returns (the function is total, and the result is no exception).  The
  index \<open>k\<close> it returns is at least \<open>i\<close>, the slot \<open>k\<close> holds \<open>None\<close> before the
  call or lies past the end of the row, and every slot from \<open>i\<close> up to \<open>k\<close> exists and
  holds a value; the row it leaves is the old row, extended with \<open>None\<close> up to \<open>k\<close>
  where needed, with the value written at \<open>k\<close>.  The \<open>except IndexError\<close> branch does
  not run: the scan ends with its flag false.
\<close>

theorem push_data_first_free_slot:
  "0 \<le> i \<Longrightarrow>
   \<exists>k. push_data row i val = Inr (int k, (extend_to None row (int k))[k := Some val])
      \<and> push_data_scan row i = Inr (int k, extend_to None row (int k), False)
      \<and> nat i \<le> k
      \<and> (k < length row \<longrightarrow> row ! k = None)
      \<and> (\<forall>j. nat i \<le> j \<and> j < k \<longrightarrow> j < length row \<and> row ! j \<noteq> None)"
proof -
  assume nonneg: "0 \<le> i"
  from push_data_scan_nonneg [OF nonneg, of row]
  obtain k where scan: "push_data_scan row i = Inr (int k, extend_to None row (int k), False)"
    and least: "nat i \<le> k" "k < length row \<longrightarrow> row ! k = None"
      "\<forall>j. nat i \<le> j \<and> j < k \<longrightarrow> j < length row \<and> row ! j \<noteq> None"
    by blast
  let ?row' = "extend_to None row (int k)"
  have "GrowingList_setitem None ?row' (int k) (Some val)
          = Inr ((extend_to None ?row' (int k))[k := Some val])"
    using GrowingList_setitem_nonneg [of "int k" None ?row' "Some val"] by simp
  moreover have "extend_to None ?row' (int k) = ?row'"
    by (simp add: extend_to_def)
  ultimately have "push_data row i val = Inr (int k, ?row'[k := Some val])"
    by (simp add: push_data_def scan)
  with scan least show ?thesis by blast
qed

text \<open>
  C9 on the row \<open>a, None, b\<close> from index 0: slot 0 is taken, slot 1 is the first free
  one and receives the value.
\<close>

theorem push_data_first_free_slot_witness:
  "push_data [Some ''a'', None, Some ''b''] 0 ''v'' = Inr (1, [Some ''a'', Some ''v'', Some ''b''])
   \<and> push_data_scan [Some ''a'', None, Some ''b''] 0 = Inr (1, [Some ''a'', None, Some ''b''], False)"
proof -
  let ?row = "[Some ''a'', None, Some ''b'']"
  have "(0::int) \<le> 0" by simp
  from push_data_first_free_slot [OF this, of ?row "''v''"]
  obtain k where r: "push_data ?row 0 ''v'' = Inr (int k, (extend_to None ?row (int k))[k := Some ''v''])"
    and s: "push_data_scan ?row 0 = Inr (int k, extend_to None ?row (int k), False)"
    and free: "k < length ?row \<longrightarrow> ?row ! k = None"
    and least: "\<forall>j. nat 0 \<le> j \<and> j < k \<longrightarrow> j < length ?row \<and> ?row ! j \<noteq> None"
    by blast
  have "k \<noteq> 0" using free by (cases k) auto
  moreover have "\<not> 1 < k" using least [rule_format, of 1] by auto
  ultimately have "k = 1" by arith
  with r s show ?thesis by (simp add: extend_to_def)
qed

subsection \<open>C10: testlabel\<close>

text \<open>
  C10.  Decorating a class returns the same class.  Afterwards the class's own
  \<open>_labels\<close> is the union of the given labels with what \<open>getattr\<close> found before (its
  own entry, else the entry of the first class after it in the method resolution order
  that has one, else nothing), \<open>getattr\<close> finds that union, no other class has
  changed, and a second decoration adds its labels to those of the first.
\<close>

theorem testlabel_accumulates:
  "fst (testlabel labels cls store) = cls
   \<and> getattr_labels (snd (testlabel labels cls store)) cls {}
        = set labels \<union> getattr_labels store cls {}
   \<and> own_labels (snd (testlabel labels cls store) cls)
        = Some (set labels \<union> getattr_labels store cls {})
   \<and> mro_tail (snd (testlabel labels cls store) cls) = mro_tail (store cls)
   \<and> (\<forall>c. c \<noteq> cls \<longrightarrow> snd (testlabel labels cls store) c = store c)
   \<and> getattr_labels (snd (testlabel labels2 (fst (testlabel labels cls store))
                             (snd (testlabel labels cls store)))) cls {}
        = set labels2 \<union> set labels \<union> getattr_labels store cls {}"
proof -
  let ?new = "set labels \<union> getattr_labels store cls {}"
  let ?store' = "store(cls := (store cls)\<lparr>own_labels := Some ?new\<rparr>)"
  have t: "testlabel labels cls store = (cls, ?store')"
    by (simp add: testlabel_def)
  have own: "own_labels (?store' cls) = Some ?new"
    by simp
  have found: "getattr_labels ?store' cls {} = ?new"
    by (simp add: getattr_labels_def List.map_filter_simps)
  have mro: "mro_tail (?store' cls) = mro_tail (store cls)"
    by simp
  have frame: "\<forall>c. c \<noteq> cls \<longrightarrow> ?store' c = store c"
    by simp
  have "testlabel labels2 cls ?store'
          = (cls, ?store'(cls := (?store' cls)\<lparr>own_labels := Some (set labels2 \<union> ?new)\<rparr>))"
    by (simp only: testlabel_def found)
  then have twice: "getattr_labels (snd (testlabel labels2 cls ?store')) cls {}
                      = set labels2 \<union> set labels \<union> getattr_labels store cls {}"
    by (simp add: getattr_labels_def List.map_filter_simps Un_assoc)
  from own found mro frame twice show ?thesis
    by (simp only: t fst_conv snd_conv simp_thms)
qed

text \<open>
  C10 on a class without labels of its own whose base class carries \<open>quick\<close>:
  decorating it with \<open>slow\<close> gives it both labels and leaves the base class as it was.
\<close>

theorem testlabel_accumulates_witness:
  "getattr_labels (snd (testlabel [''slow'']  1
      ((\<lambda>c. \<lparr>own_labels = None, mro_tail = []\<rparr>)
         (0 := \<lparr>own_labels = Some {''quick''}, mro_tail = []\<rparr>,
          1 := \<lparr>own_labels = None, mro_tail = [0]\<rparr>)))) 1 {}
     = {''slow'', ''quick''}
   \<and> own_labels (snd (testlabel [''slow'']  1
      ((\<lambda>c. \<lparr>own_labels = None, mro_tail = []\<rparr>)
         (0 := \<lparr>own_labels = Some {''quick''}, mro_tail = []\<rparr>,
          1 := \<lparr>own_labels = None, mro_tail = [0]\<rparr>))) 0) = Some {''quick''}"
proof -
  let ?store = "(\<lambda>c. \<lparr>own_labels = None, mro_tail = []\<rparr>)
         (0 := \<lparr>own_labels = Some {''quick''}, mro_tail = []\<rparr>,
          1 := \<lparr>own_labels = None, mro_tail = [0::nat]\<rparr>)"
  have g: "getattr_labels ?store 1 {} = {''quick''}"
    by (simp add: getattr_labels_def List.map_filter_simps)
  from testlabel_accumulates [of "[''slow'']" 1 ?store "[]"]
  have "getattr_labels (snd (testlabel [''slow''] 1 ?store)) 1 {}
          = set [''slow''] \<union> getattr_labels ?store 1 {}"
    and "\<forall>c. c \<noteq> 1 \<longrightarrow> snd (testlabel [''slow''] 1 ?store) c = ?store c"
    by blast+
  with g show ?thesis by auto
qed

end
